theory Spec2Isabelle
  imports Main "HOL-Library.Char_ord" "HOL-Library.List_Lexorder"
begin

section \<open>Strings\<close>

text \<open>
  A JavaScript string is modelled as a \<open>string\<close> (a list of characters). The regular
  expressions of \<^verbatim>\<open>metadata-acquisition.ts\<close> have no \<^verbatim>\<open>i\<close> or \<^verbatim>\<open>u\<close> flag, so
  the class \<^verbatim>\<open>[A-Z]\<close> is exactly the code units 65 to 90, and \<^verbatim>\<open>[a-z]\<close> is 97 to 122.
  Case conversion is modelled on these letters; every other character is left as it is.
\<close>

definition upper_AZ :: "char \<Rightarrow> bool" where
  "upper_AZ c \<longleftrightarrow> 65 \<le> (of_char c :: nat) \<and> (of_char c :: nat) \<le> 90"

definition lower_az :: "char \<Rightarrow> bool" where
  "lower_az c \<longleftrightarrow> 97 \<le> (of_char c :: nat) \<and> (of_char c :: nat) \<le> 122"

definition toUpperCase_char :: "char \<Rightarrow> char" where
  "toUpperCase_char c = (if lower_az c then char_of ((of_char c :: nat) - 32) else c)"

definition toLowerCase_char :: "char \<Rightarrow> char" where
  "toLowerCase_char c = (if upper_AZ c then char_of ((of_char c :: nat) + 32) else c)"

definition toLowerCase :: "string \<Rightarrow> string" where
  "toLowerCase s = map toLowerCase_char s"

text \<open>
  \<^verbatim>\<open>s.replace(/re/g, f)\<close>: the scan of a global regular expression over \<open>s\<close>. The
  matcher \<open>m\<close> gives, for the rest of the input at the current position, the length of
  the match that starts there. A match is replaced by \<open>f\<close> of the matched text and the
  scan goes on behind it; where nothing matches, the character is copied and the scan
  moves one position. An empty match inserts \<open>f []\<close> and copies the character.
\<close>

fun replace_global :: "(string \<Rightarrow> nat option) \<Rightarrow> (string \<Rightarrow> string) \<Rightarrow> string \<Rightarrow> string" where
  "replace_global m f [] = (case m [] of None \<Rightarrow> [] | Some _ \<Rightarrow> f [])"
| "replace_global m f (c # cs) =
     (case m (c # cs) of
        None \<Rightarrow> c # replace_global m f cs
      | Some 0 \<Rightarrow> f [] @ c # replace_global m f cs
      | Some (Suc n) \<Rightarrow> f (take (Suc n) (c # cs)) @ replace_global m f (drop n cs))"

text \<open>The matcher of a single character class, as in \<^verbatim>\<open>/[A-Z]/\<close> and \<^verbatim>\<open>/_/\<close>.\<close>

definition match_class :: "(char \<Rightarrow> bool) \<Rightarrow> string \<Rightarrow> nat option" where
  "match_class P s = (case s of [] \<Rightarrow> None | c # _ \<Rightarrow> if P c then Some 1 else None)"

text \<open>
  The matcher of a greedy repetition \<^verbatim>\<open>[...]{k,}\<close>: the longest prefix inside the
  class, when it has at least \<open>k\<close> characters.
\<close>

definition match_class_at_least :: "nat \<Rightarrow> (char \<Rightarrow> bool) \<Rightarrow> string \<Rightarrow> nat option" where
  "match_class_at_least k P s =
     (let n = length (takeWhile P s) in if k \<le> n then Some n else None)"

text \<open>
  Modelled from the spec: \<^verbatim>\<open>capitalize\<close> is imported from \<^verbatim>\<open>@ember/string\<close>
  (also reached as \<^verbatim>\<open>Ember.String.capitalize\<close>), which is not under the sources. The
  spec describes it as capitalizing the first letter of the string only: the first
  character is upper-cased, the rest is returned unchanged.
\<close>

fun capitalize :: "string \<Rightarrow> string" where
  "capitalize [] = []"
| "capitalize (c # cs) = toUpperCase_char c # cs"

text \<open>
  \<^verbatim>\<open>const formatAsCapitalizedStringWithSpaces = (string: string) =>
    capitalize(string.replace(/[A-Z]/g, match => ` ${match}`));\<close>
\<close>

definition formatAsCapitalizedStringWithSpaces :: "string \<Rightarrow> string" where
  "formatAsCapitalizedStringWithSpaces string =
     capitalize (replace_global (match_class upper_AZ) (\<lambda>match. '' '' @ match) string)"

text \<open>
  The transform in the words of the specification: a space is inserted before every
  uppercase letter.
\<close>

definition space_before_uppercase :: "string \<Rightarrow> string" where
  "space_before_uppercase s = concat (map (\<lambda>c. if upper_AZ c then [CHR '' '', c] else [c]) s)"


section \<open>The compliance module\<close>

text \<open>
  \<^verbatim>\<open>wherehows-web/constants/datasets/compliance\<close> is imported by the constants module
  and is not part of the sources. Its enumerations are parameters of the model: the
  lists of logical types, the registry \<^verbatim>\<open>nonIdFieldLogicalTypes\<close> (an object keyed by
  logical type) and the member \<^verbatim>\<open>Classification.LimitedDistribution\<close>. A
  \<^verbatim>\<open>Classification\<close> is a string enum and is modelled by its underlying string.
\<close>

type_synonym Classification = string

record logicalTypeEntry =
  classification :: Classification
  displayAs :: string

record compliance =
  customIdLogicalTypes :: "string list"
  idLogicalTypes :: "string list"
  genericLogicalTypes :: "string list"
  nonIdFieldLogicalTypes :: "string \<rightharpoonup> logicalTypeEntry"
  LimitedDistribution :: Classification

text \<open>
  \<^verbatim>\<open>fieldIdentifierTypes.generic.value\<close> and \<^verbatim>\<open>fieldIdentifierTypes.custom.value\<close>,
  the two category constants the predicates compare with.
\<close>

record fieldIdentifierTypes =
  generic_value :: string
  custom_value :: string

text \<open>
  Modelled from the spec: the declaration of \<^verbatim>\<open>fieldIdentifierTypes\<close> is in the
  compliance module, which is not under the sources. The testable properties of the
  spec use the literal category constants \<^verbatim>\<open>"generic"\<close> and \<^verbatim>\<open>"custom"\<close>.
\<close>

definition fieldIdentifierTypes_literal :: fieldIdentifierTypes where
  "fieldIdentifierTypes_literal = \<lparr>generic_value = ''generic'', custom_value = ''custom''\<rparr>"

text \<open>
  \<^verbatim>\<open>ISecurityClassificationOption\<close> and \<^verbatim>\<open>IFieldFormatDropdownOption\<close>: a pair of a
  value and a label (the field \<^verbatim>\<open>value\<close> is written \<open>val\<close>).
\<close>

record ValueLabel =
  val :: string
  label :: string


section \<open>Objects and arrays\<close>

text \<open>
  A JavaScript object with string keys is an association list in insertion order.
  Assigning to a key that is present replaces its value in place; a new key goes to the
  end. The keys here are names of logical types (no array-index keys, which an engine
  would enumerate first).
\<close>

type_synonym 'v obj = "(string \<times> 'v) list"

fun obj_set :: "'v obj \<Rightarrow> string \<Rightarrow> 'v \<Rightarrow> 'v obj" where
  "obj_set [] k v = [(k, v)]"
| "obj_set ((k', v') # kvs) k v = (if k' = k then (k', v) # kvs else (k', v') # obj_set kvs k v)"

text \<open>
  \<^verbatim>\<open>Object.assign(target, source)\<close> copies the properties of \<open>source\<close> in order; the
  spread \<^verbatim>\<open>{ ...a, ...b }\<close> is \<open>Object_assign (Object_assign [] a) b\<close>.
\<close>

definition Object_assign :: "'v obj \<Rightarrow> 'v obj \<Rightarrow> 'v obj" where
  "Object_assign target source = foldl (\<lambda>t (k, v). obj_set t k v) target source"

definition Object_values :: "'v obj \<Rightarrow> 'v list" where
  "Object_values ob = map snd ob"

definition Object_keys :: "'v obj \<Rightarrow> string list" where
  "Object_keys ob = map fst ob"

text \<open>
  \<^verbatim>\<open>reduce\<close> and \<^verbatim>\<open>map\<close> with a callback that can throw: reading \<^verbatim>\<open>.classification\<close>
  or \<^verbatim>\<open>.displayAs\<close> of a registry entry that is missing is a TypeError, which ends the
  evaluation of the module. \<open>None\<close> is that outcome.
\<close>

fun reduce_throwing :: "('b \<Rightarrow> 'a \<Rightarrow> 'b option) \<Rightarrow> 'b \<Rightarrow> 'a list \<Rightarrow> 'b option" where
  "reduce_throwing f acc [] = Some acc"
| "reduce_throwing f acc (x # xs) =
     (case f acc x of None \<Rightarrow> None | Some acc' \<Rightarrow> reduce_throwing f acc' xs)"

fun map_throwing :: "('a \<Rightarrow> 'b option) \<Rightarrow> 'a list \<Rightarrow> 'b list option" where
  "map_throwing f [] = Some []"
| "map_throwing f (x # xs) =
     (case f x of
        None \<Rightarrow> None
      | Some y \<Rightarrow> (case map_throwing f xs of None \<Rightarrow> None | Some ys \<Rightarrow> Some (y # ys)))"

text \<open>\<^verbatim>\<open>iter.indexOf(x)\<close>: the first index of \<open>x\<close>, or \<open>-1\<close>.\<close>

fun indexOf_from :: "'a list \<Rightarrow> 'a \<Rightarrow> int \<Rightarrow> int" where
  "indexOf_from [] x i = - 1"
| "indexOf_from (y # ys) x i = (if y = x then i else indexOf_from ys x (i + 1))"

definition indexOf :: "'a list \<Rightarrow> 'a \<Rightarrow> int" where
  "indexOf xs x = indexOf_from xs x 0"

text \<open>\<^verbatim>\<open>xs.filter((element, index, iter) => ...)\<close>: the callback also sees the index and the array.\<close>

fun filter_from :: "('a \<Rightarrow> int \<Rightarrow> 'a list \<Rightarrow> bool) \<Rightarrow> 'a list \<Rightarrow> int \<Rightarrow> 'a list \<Rightarrow> 'a list" where
  "filter_from p iter i [] = []"
| "filter_from p iter i (x # xs) =
     (if p x i iter then x # filter_from p iter (i + 1) xs else filter_from p iter (i + 1) xs)"

definition array_filter :: "('a \<Rightarrow> int \<Rightarrow> 'a list \<Rightarrow> bool) \<Rightarrow> 'a list \<Rightarrow> 'a list" where
  "array_filter p xs = filter_from p xs 0 xs"

text \<open>
  \<^verbatim>\<open>xs.sort()\<close> with no comparator orders strings by their code units, ascending. The
  order on \<open>string\<close> is the lexicographic order of the character codes.
\<close>

definition array_sort :: "string list \<Rightarrow> string list" where
  "array_sort xs = sort xs"


section \<open>The classification tables\<close>

text \<open>
  \<^verbatim>\<open>[...customIdLogicalTypes, ...idLogicalTypes].reduce(
    (classification, idLogicalType) =>
      Object.assign(classification, { [idLogicalType]: Classification.LimitedDistribution }), {})\<close>
\<close>

definition idFieldDataTypeClassification :: "compliance \<Rightarrow> Classification obj" where
  "idFieldDataTypeClassification M =
     foldl (\<lambda>acc idLogicalType. Object_assign acc [(idLogicalType, LimitedDistribution M)])
       [] (customIdLogicalTypes M @ idLogicalTypes M)"

text \<open>
  \<^verbatim>\<open>genericLogicalTypes.reduce(
    (classification, logicalType) =>
      Object.assign(classification,
        { [logicalType]: nonIdFieldLogicalTypes[logicalType].classification }), {})\<close>
\<close>

definition nonIdFieldDataTypeClassification :: "compliance \<Rightarrow> Classification obj option" where
  "nonIdFieldDataTypeClassification M =
     reduce_throwing
       (\<lambda>acc logicalType.
          case nonIdFieldLogicalTypes M logicalType of
            None \<Rightarrow> None
          | Some entry \<Rightarrow> Some (Object_assign acc [(logicalType, classification entry)]))
       [] (genericLogicalTypes M)"

text \<open>\<^verbatim>\<open>{ ...idFieldDataTypeClassification, ...nonIdFieldDataTypeClassification }\<close>\<close>

definition defaultFieldDataTypeClassification :: "compliance \<Rightarrow> Classification obj option" where
  "defaultFieldDataTypeClassification M =
     (case nonIdFieldDataTypeClassification M of
        None \<Rightarrow> None
      | Some nonId \<Rightarrow> Some (Object_assign (Object_assign [] (idFieldDataTypeClassification M)) nonId))"

text \<open>
  \<^verbatim>\<open>Object.values(defaultFieldDataTypeClassification).filter(
    (classifier, index, iter) => iter.indexOf(classifier) === index)\<close>
\<close>

definition classifiers :: "compliance \<Rightarrow> Classification list option" where
  "classifiers M =
     map_option
       (\<lambda>d. array_filter (\<lambda>classifier index iter. indexOf iter classifier = index) (Object_values d))
       (defaultFieldDataTypeClassification M)"

text \<open>
  \<^verbatim>\<open>['', ...classifiers.sort()].map(value =>
    ({ value, label: value ? formatAsCapitalizedStringWithSpaces(value) : '...' }))\<close>;
  a string is truthy when it is not empty.
\<close>

definition securityClassificationDropdownOptions :: "compliance \<Rightarrow> ValueLabel list option" where
  "securityClassificationDropdownOptions M =
     map_option
       (\<lambda>cs. map (\<lambda>v. \<lparr>val = v,
                         label = (if v \<noteq> [] then formatAsCapitalizedStringWithSpaces v else ''...'')\<rparr>)
                 ([] # array_sort cs))
       (classifiers M)"


section \<open>Identifier-type predicates\<close>

definition isMixedId :: "fieldIdentifierTypes \<Rightarrow> string \<Rightarrow> bool" where
  "isMixedId F identifierType \<longleftrightarrow> identifierType = generic_value F"

definition isCustomId :: "fieldIdentifierTypes \<Rightarrow> string \<Rightarrow> bool" where
  "isCustomId F identifierType \<longleftrightarrow> identifierType = custom_value F"

definition hasPredefinedFieldFormat :: "fieldIdentifierTypes \<Rightarrow> string \<Rightarrow> bool" where
  "hasPredefinedFieldFormat F identifierType \<longleftrightarrow>
     isMixedId F identifierType \<or> isCustomId F identifierType"

text \<open>The function returns \<^verbatim>\<open>'URN'\<close> or falls off its end (\<^verbatim>\<open>string | void\<close>): \<open>None\<close>.\<close>

definition getDefaultLogicalType :: "fieldIdentifierTypes \<Rightarrow> string \<Rightarrow> string option" where
  "getDefaultLogicalType F identifierType =
     (if isMixedId F identifierType then Some ''URN'' else None)"


section \<open>Labels of logical types\<close>

text \<open>The type parameter \<^verbatim>\<open>K extends 'id' | 'generic'\<close>.\<close>

datatype category = K_id | K_generic

text \<open>
  \<^verbatim>\<open>value.replace(/_/g, ' ').replace(/([A-Z]{3,})/g,
    value => Ember.String.capitalize(value.toLowerCase()))\<close>
\<close>

definition id_label :: "string \<Rightarrow> string" where
  "id_label v =
     replace_global (match_class_at_least 3 upper_AZ) (\<lambda>w. capitalize (toLowerCase w))
       (replace_global (match_class (\<lambda>c. c = CHR ''_'')) (\<lambda>_. '' '') v)"

definition logicalTypeValueLabel :: "compliance \<Rightarrow> category \<Rightarrow> ValueLabel list option" where
  "logicalTypeValueLabel M logicalType =
     (let logicalTypes = (case logicalType of K_id \<Rightarrow> idLogicalTypes M
                                            | K_generic \<Rightarrow> genericLogicalTypes M)
      in map_throwing
           (\<lambda>v. if logicalType = K_generic
                then (case nonIdFieldLogicalTypes M v of
                        None \<Rightarrow> None
                      | Some entry \<Rightarrow> Some \<lparr>val = v, label = displayAs entry\<rparr>)
                else Some \<lparr>val = v, label = id_label v\<rparr>)
           logicalTypes)"

text \<open>
  The label of an identifier type in the words of the specification. \<open>runs P s\<close> cuts
  \<open>s\<close> into its maximal runs of consecutive characters that are all inside or all outside
  \<open>P\<close>; a run of three or more uppercase letters is lower-cased and its first letter
  capitalized.
\<close>

function runs :: "('a \<Rightarrow> bool) \<Rightarrow> 'a list \<Rightarrow> 'a list list" where
  "runs P [] = []"
| "runs P (c # cs) =
     (c # takeWhile (\<lambda>x. P x = P c) cs) # runs P (dropWhile (\<lambda>x. P x = P c) cs)"
  by pat_completeness auto
termination
  by (relation "measure (\<lambda>(P, s). length s)") (auto simp add: length_dropWhile_le le_imp_less_Suc)

definition underscores_to_spaces :: "string \<Rightarrow> string" where
  "underscores_to_spaces s = map (\<lambda>c. if c = CHR ''_'' then CHR '' '' else c) s"

definition title_case_long_runs :: "string \<Rightarrow> string" where
  "title_case_long_runs s =
     concat (map (\<lambda>r. if 3 \<le> length r \<and> list_all upper_AZ r
                       then capitalize (toLowerCase r) else r)
                 (runs upper_AZ s))"


section \<open>The schema descriptor\<close>

text \<open>
  \<^verbatim>\<open>record SchemaDefinition\<close> of the namespace \<^verbatim>\<open>com.linkedin.schema\<close>. The member
  types of the union and \<^verbatim>\<open>NormalizedSchema\<close> are declared in other schema files; only
  their names are used here.
\<close>

typedecl AvroSchema
typedecl BinaryJsonSchema
typedecl DDL
typedecl EspressoSchema
typedecl KeyValueSchema
typedecl OrcSchema
typedecl ParquetSchema
typedecl Schemaless
typedecl NormalizedSchema

datatype rawSchemaUnion =
    is_AvroSchema: AvroSchema AvroSchema
  | is_BinaryJsonSchema: BinaryJsonSchema BinaryJsonSchema
  | is_DDL: DDL DDL
  | is_EspressoSchema: EspressoSchema EspressoSchema
  | is_KeyValueSchema: KeyValueSchema KeyValueSchema
  | is_OrcSchema: OrcSchema OrcSchema
  | is_ParquetSchema: ParquetSchema ParquetSchema
  | is_Schemaless: Schemaless Schemaless

record SchemaDefinition =
  rawSchema :: "rawSchemaUnion option"
  normalizedSchema :: "NormalizedSchema option"

text \<open>The tests of the eight variants of the union, in the order of the declaration.\<close>

definition variants :: "(rawSchemaUnion \<Rightarrow> bool) list" where
  "variants = [is_AvroSchema, is_BinaryJsonSchema, is_DDL, is_EspressoSchema, is_KeyValueSchema,
               is_OrcSchema, is_ParquetSchema, is_Schemaless]"


section \<open>A concrete module\<close>

text \<open>
  An instance of the compliance module on which the tables are evaluated: one custom
  identifier type, four identifier types, three generic types with their registry
  entries.
\<close>

definition example_module :: compliance where
  "example_module =
     \<lparr>customIdLogicalTypes = [''CUSTOM_ID''],
      idLogicalTypes = [''ID'', ''URN'', ''REVERSED_URN'', ''COMPOSITE_URN''],
      genericLogicalTypes = [''EMAIL'', ''NAME'', ''AGE''],
      nonIdFieldLogicalTypes =
        [''NAME'' \<mapsto> \<lparr>classification = ''confidential'', displayAs = ''Name''\<rparr>,
         ''EMAIL'' \<mapsto> \<lparr>classification = ''confidential'', displayAs = ''E-mail''\<rparr>,
         ''AGE'' \<mapsto> \<lparr>classification = ''public'', displayAs = ''Age''\<rparr>],
      LimitedDistribution = ''limitedDistribution''\<rparr>"




section \<open>Properties of the label format\<close>

lemma not_lower_toUpperCase_char: "\<not> lower_az (toUpperCase_char c)"
  by (auto simp add: toUpperCase_char_def lower_az_def)

lemma not_lower_space: "\<not> lower_az (CHR '' '')"
  by (simp add: lower_az_def)

lemma not_upper_space: "\<not> upper_AZ (CHR '' '')"
  by (simp add: upper_AZ_def)

lemma upper_not_lower: "upper_AZ c \<Longrightarrow> \<not> lower_az c"
  by (simp add: upper_AZ_def lower_az_def)

lemma upper_toUpperCase_char: "upper_AZ (toUpperCase_char c) \<longleftrightarrow> upper_AZ c \<or> lower_az c"
  by (auto simp add: toUpperCase_char_def lower_az_def upper_AZ_def)

lemma replace_upper_eq:
  "replace_global (match_class upper_AZ) (\<lambda>match. '' '' @ match) s = space_before_uppercase s"
  by (induction s) (simp_all add: match_class_def space_before_uppercase_def)

lemma format_unfold:
  "formatAsCapitalizedStringWithSpaces s = capitalize (space_before_uppercase s)"
  unfolding formatAsCapitalizedStringWithSpaces_def replace_upper_eq ..

lemma space_before_Nil: "space_before_uppercase [] = []"
  by (simp add: space_before_uppercase_def)

lemma space_before_Cons:
  "space_before_uppercase (c # cs) =
     (if upper_AZ c then [CHR '' '', c] else [c]) @ space_before_uppercase cs"
  by (simp add: space_before_uppercase_def)

lemma capitalize_id: "(case s of [] \<Rightarrow> True | c # _ \<Rightarrow> \<not> lower_az c) \<Longrightarrow> capitalize s = s"
  by (cases s) (simp_all add: toUpperCase_char_def)

lemma length_space_before:
  "length (space_before_uppercase s) = length s + length (filter upper_AZ s)"
  by (induction s) (simp_all add: space_before_uppercase_def)

lemma format_head_not_lower:
  "case formatAsCapitalizedStringWithSpaces s of [] \<Rightarrow> True | c # _ \<Rightarrow> \<not> lower_az c"
  by (cases s) (simp_all add: format_unfold space_before_Nil
      space_before_Cons not_lower_toUpperCase_char)

lemma space_before_head_not_lower:
  "(case t of [] \<Rightarrow> True | c # _ \<Rightarrow> \<not> lower_az c) \<Longrightarrow>
   (case space_before_uppercase t of [] \<Rightarrow> True | c # _ \<Rightarrow> \<not> lower_az c)"
  by (cases t) (simp_all add: space_before_Cons space_before_Nil not_lower_space)

lemma format_twice:
  "formatAsCapitalizedStringWithSpaces (formatAsCapitalizedStringWithSpaces s) =
   space_before_uppercase (formatAsCapitalizedStringWithSpaces s)"
  using capitalize_id [OF space_before_head_not_lower [OF format_head_not_lower [of s]]]
  by (simp add: format_unfold)

text \<open>
  Claim C3. For every string \<open>s\<close>, \<open>formatAsCapitalizedStringWithSpaces s\<close> is the string
  obtained by inserting a space before every uppercase letter of \<open>s\<close> and then
  capitalizing the result: its first character is the upper-cased first character of
  the spaced string, and all the other characters are those of the spaced string,
  unchanged.
\<close>

theorem formatAsCapitalizedStringWithSpaces_spec:
  "formatAsCapitalizedStringWithSpaces s = capitalize (space_before_uppercase s)
   \<and> take 1 (formatAsCapitalizedStringWithSpaces s) =
       map toUpperCase_char (take 1 (space_before_uppercase s))
   \<and> drop 1 (formatAsCapitalizedStringWithSpaces s) = drop 1 (space_before_uppercase s)"
  by (cases "space_before_uppercase s") (simp_all add: format_unfold)

text \<open>
  Claim C4, as amended. On a camelCase input, one that begins with a lowercase letter,
  the transform is not idempotent. The first application capitalizes the first letter.
  The second application leaves the capitalization alone and inserts one more space
  before every uppercase letter of the formatted label, the capitalized first letter
  included: applied twice, the result begins with a space followed by that capital, is
  longer than the formatted label by the number of its uppercase letters, and differs
  from it.
\<close>

theorem format_twice_on_camelCase:
  assumes "s \<noteq> []" and "lower_az (hd s)"
  shows "take 1 (formatAsCapitalizedStringWithSpaces s) = [toUpperCase_char (hd s)]
       \<and> upper_AZ (toUpperCase_char (hd s))
       \<and> formatAsCapitalizedStringWithSpaces (formatAsCapitalizedStringWithSpaces s) =
           space_before_uppercase (formatAsCapitalizedStringWithSpaces s)
       \<and> take 2 (formatAsCapitalizedStringWithSpaces (formatAsCapitalizedStringWithSpaces s)) =
           [CHR '' '', toUpperCase_char (hd s)]
       \<and> length (formatAsCapitalizedStringWithSpaces (formatAsCapitalizedStringWithSpaces s)) =
           length (formatAsCapitalizedStringWithSpaces s)
             + length (filter upper_AZ (formatAsCapitalizedStringWithSpaces s))
       \<and> 0 < length (filter upper_AZ (formatAsCapitalizedStringWithSpaces s))
       \<and> formatAsCapitalizedStringWithSpaces (formatAsCapitalizedStringWithSpaces s) \<noteq>
           formatAsCapitalizedStringWithSpaces s"
proof (cases s)
  case Nil
  with assms show ?thesis by simp
next
  case (Cons c cs)
  with assms have low: "lower_az c" by simp
  then have "\<not> upper_AZ c"
    using upper_not_lower [of c] by blast
  then have once: "formatAsCapitalizedStringWithSpaces s =
                     toUpperCase_char c # space_before_uppercase cs"
    using Cons by (simp add: format_unfold space_before_Cons)
  have up: "upper_AZ (toUpperCase_char c)"
    using low by (simp add: upper_toUpperCase_char)
  have twice: "formatAsCapitalizedStringWithSpaces (formatAsCapitalizedStringWithSpaces s) =
                 space_before_uppercase (formatAsCapitalizedStringWithSpaces s)"
    by (rule format_twice)
  have len: "length (formatAsCapitalizedStringWithSpaces (formatAsCapitalizedStringWithSpaces s)) =
           length (formatAsCapitalizedStringWithSpaces s)
             + length (filter upper_AZ (formatAsCapitalizedStringWithSpaces s))"
    unfolding twice by (rule length_space_before)
  have pos: "0 < length (filter upper_AZ (formatAsCapitalizedStringWithSpaces s))"
    using up by (simp add: once)
  have two: "take 2 (formatAsCapitalizedStringWithSpaces (formatAsCapitalizedStringWithSpaces s)) =
           [CHR '' '', toUpperCase_char c]"
    unfolding twice using up by (simp add: once space_before_Cons)
  have differ: "formatAsCapitalizedStringWithSpaces (formatAsCapitalizedStringWithSpaces s) \<noteq>
           formatAsCapitalizedStringWithSpaces s"
  proof
    assume "formatAsCapitalizedStringWithSpaces (formatAsCapitalizedStringWithSpaces s) =
              formatAsCapitalizedStringWithSpaces s"
    with len pos show False by simp
  qed
  from once up twice two len pos differ Cons show ?thesis by simp
qed

text \<open>The camelCase classifier \<^verbatim>\<open>limitedDistribution\<close>, formatted once and twice.\<close>

theorem format_twice_on_camelCase_witness:
  "lower_az (hd ''limitedDistribution'')
   \<and> take 2 (formatAsCapitalizedStringWithSpaces
                (formatAsCapitalizedStringWithSpaces ''limitedDistribution'')) = '' L''
   \<and> length (formatAsCapitalizedStringWithSpaces
                (formatAsCapitalizedStringWithSpaces ''limitedDistribution''))
       = length (formatAsCapitalizedStringWithSpaces ''limitedDistribution'')
           + length (filter upper_AZ (formatAsCapitalizedStringWithSpaces ''limitedDistribution''))"
proof -
  have h: "''limitedDistribution'' \<noteq> []" "lower_az (hd ''limitedDistribution'')"
    by (simp_all add: lower_az_def)
  have u: "toUpperCase_char (hd ''limitedDistribution'') = CHR ''L''"
    by (simp add: toUpperCase_char_def lower_az_def char_of_eq_iff)
  note t = format_twice_on_camelCase [OF h]
  from t have "take 2 (formatAsCapitalizedStringWithSpaces
                (formatAsCapitalizedStringWithSpaces ''limitedDistribution'')) =
               [CHR '' '', toUpperCase_char (hd ''limitedDistribution'')]"
    by blast
  then have two: "take 2 (formatAsCapitalizedStringWithSpaces
                (formatAsCapitalizedStringWithSpaces ''limitedDistribution'')) = '' L''"
    unfolding u .
  from t have "length (formatAsCapitalizedStringWithSpaces
                (formatAsCapitalizedStringWithSpaces ''limitedDistribution''))
       = length (formatAsCapitalizedStringWithSpaces ''limitedDistribution'')
           + length (filter upper_AZ (formatAsCapitalizedStringWithSpaces ''limitedDistribution''))"
    by blast
  with h(2) two show ?thesis by blast
qed

text \<open>
  The claim as stated fails on the camelCase classifier \<^verbatim>\<open>limitedDistribution\<close>: the
  label is \<^verbatim>\<open>Limited Distribution\<close>, and formatting the label again gives a leading
  space and a doubled space.
\<close>

theorem format_not_idempotent_on_camelCase:
  "formatAsCapitalizedStringWithSpaces ''limitedDistribution'' = ''Limited Distribution''
   \<and> formatAsCapitalizedStringWithSpaces ''Limited Distribution'' = '' Limited  Distribution''
   \<and> formatAsCapitalizedStringWithSpaces (formatAsCapitalizedStringWithSpaces ''limitedDistribution'')
       \<noteq> formatAsCapitalizedStringWithSpaces ''limitedDistribution''"
  by (simp add: formatAsCapitalizedStringWithSpaces_def match_class_def upper_AZ_def
      toUpperCase_char_def lower_az_def char_of_eq_iff)

text \<open>
  Claim C10. When the input begins with an uppercase letter, the replacement puts a
  space before it and \<open>capitalize\<close> changes nothing: the result is the spaced string
  itself, and it begins with a space followed by that capital.
\<close>

theorem format_leading_capital:
  assumes "s \<noteq> []" and "upper_AZ (hd s)"
  shows "formatAsCapitalizedStringWithSpaces s =
           replace_global (match_class upper_AZ) (\<lambda>match. '' '' @ match) s
         \<and> take 2 (formatAsCapitalizedStringWithSpaces s) = [CHR '' '', hd s]"
proof (cases s)
  case Nil
  with assms show ?thesis by simp
next
  case (Cons c cs)
  with assms have "upper_AZ c" by simp
  then have "space_before_uppercase s = CHR '' '' # c # space_before_uppercase cs"
    using Cons by (simp add: space_before_Cons)
  then show ?thesis
    unfolding replace_upper_eq format_unfold
    using Cons by (simp add: toUpperCase_char_def not_lower_space)
qed

theorem format_leading_capital_witness:
  "''Public'' \<noteq> [] \<and> upper_AZ (hd ''Public'')
   \<and> formatAsCapitalizedStringWithSpaces ''Public'' = '' Public''"
  using format_leading_capital [of "''Public''"]
  by (simp add: match_class_def upper_AZ_def)


section \<open>Properties of objects and arrays\<close>

lemma map_of_obj_set_apply:
  "map_of (obj_set ob k v) k' = (if k' = k then Some v else map_of ob k')"
  by (induction ob) auto

lemma map_of_obj_set: "map_of (obj_set ob k v) = (map_of ob)(k \<mapsto> v)"
  by (rule ext) (simp add: map_of_obj_set_apply)

lemma keys_obj_set: "fst ` set (obj_set ob k v) = insert k (fst ` set ob)"
  by (simp add: map_of_obj_set flip: dom_map_of_conv_image_fst)

lemma distinct_obj_set: "distinct (map fst ob) \<Longrightarrow> distinct (map fst (obj_set ob k v))"
  by (induction ob) (auto simp add: keys_obj_set)

lemma Object_assign_Nil: "Object_assign t [] = t"
  by (simp add: Object_assign_def)

lemma Object_assign_Cons: "Object_assign t ((k, v) # s) = Object_assign (obj_set t k v) s"
  by (simp add: Object_assign_def)

lemma distinct_Object_assign: "distinct (map fst t) \<Longrightarrow> distinct (map fst (Object_assign t s))"
  by (induction s arbitrary: t) (auto simp add: Object_assign_Nil Object_assign_Cons distinct_obj_set)

lemma map_of_Object_assign:
  "distinct (map fst s) \<Longrightarrow> map_of (Object_assign t s) = map_of t ++ map_of s"
proof (induction s arbitrary: t)
  case Nil
  then show ?case by (simp add: Object_assign_Nil)
next
  case (Cons kv s)
  obtain k v where kv: "kv = (k, v)" by (cases kv)
  from Cons.prems kv have k: "k \<notin> dom (map_of s)" and d: "distinct (map fst s)"
    by (auto simp add: dom_map_of_conv_image_fst)
  have "map_of (Object_assign t (kv # s)) = map_of (obj_set t k v) ++ map_of s"
    using Cons.IH [OF d] kv by (simp only: Object_assign_Cons)
  also have "\<dots> = (map_of t)(k \<mapsto> v) ++ map_of s"
    by (simp only: map_of_obj_set)
  also have "\<dots> = (map_of t ++ map_of s)(k \<mapsto> v)"
    using k by (rule map_add_upd_left)
  also have "\<dots> = map_of t ++ map_of (kv # s)"
    by (simp add: kv)
  finally show ?case .
qed

lemma Object_assign_empty:
  "distinct (map fst s) \<Longrightarrow> map_of (Object_assign [] s) = map_of s"
  by (simp add: map_of_Object_assign)

lemma Object_assign_single: "Object_assign acc [(k, v)] = obj_set acc k v"
  by (simp add: Object_assign_def)

lemma keys_eq_dom: "set (Object_keys ob) = dom (map_of ob)"
  by (simp add: Object_keys_def dom_map_of_conv_image_fst)

lemma values_eq_ran: "distinct (map fst ob) \<Longrightarrow> set (Object_values ob) = ran (map_of ob)"
  by (simp add: Object_values_def ran_distinct)

text \<open>
  The filter of \<open>classifiers\<close> keeps an element exactly at its first occurrence: the
  result has the elements of the array, each once.
\<close>

lemma indexOf_from_notin:
  "x \<notin> set pre \<Longrightarrow> indexOf_from (pre @ x # ys) x i = i + int (length pre)"
  by (induction pre arbitrary: i) auto

lemma indexOf_from_in:
  "x \<in> set pre \<Longrightarrow> indexOf_from (pre @ ys) x i < i + int (length pre)"
proof (induction pre arbitrary: i)
  case Nil
  then show ?case by simp
next
  case (Cons p pre)
  show ?case
  proof (cases "p = x")
    case True
    then show ?thesis by simp
  next
    case False
    with Cons.prems have "x \<in> set pre" by simp
    from Cons.IH [OF this, of "i + 1"] False show ?thesis by simp
  qed
qed

lemma indexOf_first_iff:
  "indexOf (pre @ x # ys) x = int (length pre) \<longleftrightarrow> x \<notin> set pre"
proof (cases "x \<in> set pre")
  case True
  from indexOf_from_in [OF this, of "x # ys" 0] True show ?thesis
    by (simp add: indexOf_def)
next
  case False
  from indexOf_from_notin [OF this, of ys 0] False show ?thesis
    by (simp add: indexOf_def)
qed

lemma filter_from_first_occurrences:
  "set (filter_from (\<lambda>classifier index iter. indexOf iter classifier = index)
          (pre @ ys) (int (length pre)) ys) = set ys - set pre
   \<and> distinct (filter_from (\<lambda>classifier index iter. indexOf iter classifier = index)
          (pre @ ys) (int (length pre)) ys)"
proof (induction ys arbitrary: pre)
  case Nil
  then show ?case by simp
next
  case (Cons y ys)
  have eq: "pre @ y # ys = (pre @ [y]) @ ys" "int (length pre) + 1 = int (length (pre @ [y]))"
    by simp_all
  from Cons.IH [of "pre @ [y]"] show ?case
    unfolding filter_from.simps indexOf_first_iff eq(2)
    unfolding eq(1) by auto
qed

lemma array_filter_first_occurrences:
  "set (array_filter (\<lambda>classifier index iter. indexOf iter classifier = index) xs) = set xs"
  "distinct (array_filter (\<lambda>classifier index iter. indexOf iter classifier = index) xs)"
  using filter_from_first_occurrences [of "[]" xs] by (simp_all add: array_filter_def)

text \<open>
  The order that \<open>array_sort\<close> sorts by: the empty string comes first, and two non-empty
  strings are compared by the codes of their first characters, then by their rests.
\<close>

lemma string_order_lexicographic:
  "([] :: string) \<le> s"
  "\<not> (c # cs \<le> ([] :: string))"
  "(c # cs \<le> d # ds) \<longleftrightarrow>
     (of_char c :: nat) < of_char d \<or> c = d \<and> cs \<le> ds"
  by (simp_all add: less_char_def)


section \<open>Properties of the classification tables\<close>

lemma id_fold_lookup:
  "map_of (foldl (\<lambda>acc t. Object_assign acc [(t, c)]) acc ts) k =
     (if k \<in> set ts then Some c else map_of acc k)"
  by (induction ts arbitrary: acc) (simp_all add: Object_assign_single map_of_obj_set_apply)

lemma id_fold_distinct:
  "distinct (map fst acc) \<Longrightarrow>
   distinct (map fst (foldl (\<lambda>acc t. Object_assign acc [(t, c)]) acc ts))"
  by (induction ts arbitrary: acc) (simp_all add: Object_assign_single distinct_obj_set)

lemma idField_lookup:
  "map_of (idFieldDataTypeClassification M) k =
     (if k \<in> set (customIdLogicalTypes M) \<union> set (idLogicalTypes M)
      then Some (LimitedDistribution M) else None)"
  by (simp add: idFieldDataTypeClassification_def id_fold_lookup)

lemma idField_distinct: "distinct (map fst (idFieldDataTypeClassification M))"
  by (simp add: idFieldDataTypeClassification_def id_fold_distinct)

lemma nonId_reduce:
  assumes "\<forall>t\<in>set ts. reg t \<noteq> None" and "distinct (map fst acc)"
  shows "\<exists>r. reduce_throwing
           (\<lambda>acc logicalType.
              case reg logicalType of
                None \<Rightarrow> None
              | Some entry \<Rightarrow> Some (Object_assign acc [(logicalType, classification entry)]))
           acc ts = Some r
         \<and> distinct (map fst r)
         \<and> (\<forall>k. map_of r k =
               (if k \<in> set ts then map_option classification (reg k) else map_of acc k))"
  using assms
proof (induction ts arbitrary: acc)
  case Nil
  then show ?case by simp
next
  case (Cons t ts)
  from Cons.prems obtain e where e: "reg t = Some e" by auto
  have d: "distinct (map fst (obj_set acc t (classification e)))"
    using Cons.prems(2) by (rule distinct_obj_set)
  from Cons.prems have "\<forall>t\<in>set ts. reg t \<noteq> None" by simp
  from Cons.IH [OF this d] obtain r where
    r: "reduce_throwing
           (\<lambda>acc logicalType.
              case reg logicalType of
                None \<Rightarrow> None
              | Some entry \<Rightarrow> Some (Object_assign acc [(logicalType, classification entry)]))
           (obj_set acc t (classification e)) ts = Some r"
    and dr: "distinct (map fst r)"
    and lr: "\<And>k. map_of r k =
               (if k \<in> set ts then map_option classification (reg k)
                else map_of (obj_set acc t (classification e)) k)"
    by blast
  show ?case
  proof (intro exI conjI allI)
    show "reduce_throwing
           (\<lambda>acc logicalType.
              case reg logicalType of
                None \<Rightarrow> None
              | Some entry \<Rightarrow> Some (Object_assign acc [(logicalType, classification entry)]))
           acc (t # ts) = Some r"
      using r e by (simp add: Object_assign_single)
    show "distinct (map fst r)" by (rule dr)
    show "map_of r k =
            (if k \<in> set (t # ts) then map_option classification (reg k) else map_of acc k)" for k
      using e by (simp add: lr map_of_obj_set_apply)
  qed
qed

lemma nonId_tables:
  assumes "\<forall>t\<in>set (genericLogicalTypes M). nonIdFieldLogicalTypes M t \<noteq> None"
  shows "\<exists>nonId. nonIdFieldDataTypeClassification M = Some nonId
           \<and> distinct (map fst nonId)
           \<and> (\<forall>k. map_of nonId k =
                 (if k \<in> set (genericLogicalTypes M)
                  then map_option classification (nonIdFieldLogicalTypes M k) else None))"
  using nonId_reduce [OF assms, of "[]"]
  unfolding nonIdFieldDataTypeClassification_def by auto

lemma default_tables:
  assumes "nonIdFieldDataTypeClassification M = Some nonId" and "distinct (map fst nonId)"
  shows "defaultFieldDataTypeClassification M =
           Some (Object_assign (Object_assign [] (idFieldDataTypeClassification M)) nonId)"
    and "distinct (map fst (Object_assign (Object_assign [] (idFieldDataTypeClassification M)) nonId))"
    and "map_of (Object_assign (Object_assign [] (idFieldDataTypeClassification M)) nonId) =
           map_of (idFieldDataTypeClassification M) ++ map_of nonId"
proof -
  show "defaultFieldDataTypeClassification M =
           Some (Object_assign (Object_assign [] (idFieldDataTypeClassification M)) nonId)"
    using assms(1) by (simp add: defaultFieldDataTypeClassification_def)
  show "distinct (map fst (Object_assign (Object_assign [] (idFieldDataTypeClassification M)) nonId))"
    by (intro distinct_Object_assign) simp
  show "map_of (Object_assign (Object_assign [] (idFieldDataTypeClassification M)) nonId) =
           map_of (idFieldDataTypeClassification M) ++ map_of nonId"
    by (simp only: map_of_Object_assign [OF assms(2)] Object_assign_empty [OF idField_distinct])
qed

lemma classifiers_tables:
  assumes "defaultFieldDataTypeClassification M = Some m"
  shows "\<exists>cs. classifiers M = Some cs \<and> distinct cs \<and> set cs = set (Object_values m)"
  using assms array_filter_first_occurrences [of "Object_values m"]
  by (simp add: classifiers_def)

text \<open>
  Claim C2. When the registry has an entry for every generic logical type (otherwise the
  evaluation of the module stops with a TypeError), the tables are built as the
  specification says. The identifier table, folded from the empty object over the custom
  identifier types followed by the identifier types, maps exactly these names, each to
  \<open>LimitedDistribution\<close>. The non-identifier table maps exactly the generic names, each
  to the classification of its registry entry. The merged table looks a key up in the
  non-identifier table and then in the identifier table, and its keys are the union of
  the keys of the two, each once.
\<close>

theorem defaultFieldDataTypeClassification_built:
  assumes "\<forall>t\<in>set (genericLogicalTypes M). nonIdFieldLogicalTypes M t \<noteq> None"
  shows "\<exists>nonId m.
           nonIdFieldDataTypeClassification M = Some nonId
         \<and> defaultFieldDataTypeClassification M = Some m
         \<and> (\<forall>k. map_of (idFieldDataTypeClassification M) k =
               (if k \<in> set (customIdLogicalTypes M @ idLogicalTypes M)
                then Some (LimitedDistribution M) else None))
         \<and> (\<forall>k. map_of nonId k =
               (if k \<in> set (genericLogicalTypes M)
                then map_option classification (nonIdFieldLogicalTypes M k) else None))
         \<and> map_of m = map_of (idFieldDataTypeClassification M) ++ map_of nonId
         \<and> set (Object_keys m) =
             set (Object_keys (idFieldDataTypeClassification M)) \<union> set (Object_keys nonId)
         \<and> distinct (Object_keys m)"
proof -
  from nonId_tables [OF assms] obtain nonId where
    n: "nonIdFieldDataTypeClassification M = Some nonId"
    and d: "distinct (map fst nonId)"
    and l: "\<forall>k. map_of nonId k =
                 (if k \<in> set (genericLogicalTypes M)
                  then map_option classification (nonIdFieldLogicalTypes M k) else None)"
    by blast
  let ?m = "Object_assign (Object_assign [] (idFieldDataTypeClassification M)) nonId"
  note t = default_tables [OF n d]
  have "set (Object_keys ?m) =
          set (Object_keys (idFieldDataTypeClassification M)) \<union> set (Object_keys nonId)"
    by (simp only: keys_eq_dom t(3) dom_map_add Un_commute)
  moreover have "distinct (Object_keys ?m)"
    using t(2) by (simp add: Object_keys_def)
  moreover have "\<forall>k. map_of (idFieldDataTypeClassification M) k =
               (if k \<in> set (customIdLogicalTypes M @ idLogicalTypes M)
                then Some (LimitedDistribution M) else None)"
    by (simp add: idField_lookup)
  ultimately show ?thesis
    using n t(1) t(3) l by blast
qed

text \<open>The tables of \<open>example_module\<close>.\<close>

theorem defaultFieldDataTypeClassification_built_witness:
  "\<exists>nonId m.
      nonIdFieldDataTypeClassification example_module = Some nonId
    \<and> defaultFieldDataTypeClassification example_module = Some m
    \<and> map_of m = map_of (idFieldDataTypeClassification example_module) ++ map_of nonId
    \<and> map_of m ''URN'' = Some ''limitedDistribution''
    \<and> map_of m ''AGE'' = Some ''public''"
proof -
  have h: "\<forall>t\<in>set (genericLogicalTypes example_module).
             nonIdFieldLogicalTypes example_module t \<noteq> None"
    by (simp add: example_module_def)
  from defaultFieldDataTypeClassification_built [OF h] obtain nonId m where
    "nonIdFieldDataTypeClassification example_module = Some nonId"
    "defaultFieldDataTypeClassification example_module = Some m"
    "\<forall>k. map_of (idFieldDataTypeClassification example_module) k =
               (if k \<in> set (customIdLogicalTypes example_module @ idLogicalTypes example_module)
                then Some (LimitedDistribution example_module) else None)"
    "\<forall>k. map_of nonId k =
               (if k \<in> set (genericLogicalTypes example_module)
                then map_option classification (nonIdFieldLogicalTypes example_module k) else None)"
    "map_of m = map_of (idFieldDataTypeClassification example_module) ++ map_of nonId"
    by blast
  then show ?thesis
    by (intro exI [of _ nonId] exI [of _ m]) (simp add: example_module_def map_add_def)
qed




text \<open>
  Claim C1. When the registry has an entry for every generic logical type and no
  classification is the empty string, the sequence of dropdown options has one option
  more than the merged table has distinct classifiers. Its first option has the empty
  value; no other option has. The values of the other options are the distinct
  classifiers of the merged table, each once, in ascending lexicographic order.
\<close>

theorem securityClassificationDropdownOptions_shape:
  assumes "\<forall>t\<in>set (genericLogicalTypes M). nonIdFieldLogicalTypes M t \<noteq> None"
    and "LimitedDistribution M \<noteq> []"
    and "\<forall>t e. nonIdFieldLogicalTypes M t = Some e \<longrightarrow> classification e \<noteq> []"
  shows "\<exists>m opts.
           defaultFieldDataTypeClassification M = Some m
         \<and> securityClassificationDropdownOptions M = Some opts
         \<and> length opts = card (set (Object_values m)) + 1
         \<and> val (hd opts) = []
         \<and> (\<forall>opt\<in>set (tl opts). val opt \<noteq> [])
         \<and> set (map val (tl opts)) = set (Object_values m)
         \<and> distinct (map val (tl opts))
         \<and> sorted (map val (tl opts))"
proof -
  from nonId_tables [OF assms(1)] obtain nonId where
    n: "nonIdFieldDataTypeClassification M = Some nonId"
    and d: "distinct (map fst nonId)"
    and l: "\<And>k. map_of nonId k =
                 (if k \<in> set (genericLogicalTypes M)
                  then map_option classification (nonIdFieldLogicalTypes M k) else None)"
    by blast
  let ?m = "Object_assign (Object_assign [] (idFieldDataTypeClassification M)) nonId"
  note t = default_tables [OF n d]
  from classifiers_tables [OF t(1)] obtain cs where
    c: "classifiers M = Some cs" and dc: "distinct cs" and sc: "set cs = set (Object_values ?m)"
    by blast
  let ?mk = "\<lambda>v. \<lparr>val = v,
                    label = (if v \<noteq> [] then formatAsCapitalizedStringWithSpaces v else ''...'')\<rparr>"
  let ?opts = "map ?mk ([] # array_sort cs)"
  have o: "securityClassificationDropdownOptions M = Some ?opts"
    using c by (simp add: securityClassificationDropdownOptions_def)
  have vals: "map val (tl ?opts) = array_sort cs"
    by (simp add: comp_def)
  have nonempty: "[] \<notin> set (Object_values ?m)"
  proof
    assume "[] \<in> set (Object_values ?m)"
    then have "[] \<in> ran (map_of ?m)"
      using values_eq_ran [OF t(2)] by simp
    then obtain k where "map_of ?m k = Some []"
      by (auto simp add: ran_def)
    then show False
      using assms(2,3)
      by (auto simp add: t(3) map_add_def l idField_lookup split: option.splits if_splits)
  qed
  have "length ?opts = card (set (Object_values ?m)) + 1"
    using distinct_card [OF dc] by (simp add: array_sort_def sc)
  moreover have "val (hd ?opts) = []" by simp
  moreover have "\<forall>opt\<in>set (tl ?opts). val opt \<noteq> []"
    using nonempty by (auto simp add: array_sort_def sc)
  moreover have "set (map val (tl ?opts)) = set (Object_values ?m)"
    unfolding vals by (simp add: array_sort_def sc)
  moreover have "distinct (map val (tl ?opts))"
    unfolding vals using dc by (simp add: array_sort_def)
  moreover have "sorted (map val (tl ?opts))"
    unfolding vals by (simp add: array_sort_def)
  ultimately show ?thesis
    using t(1) o by blast
qed

text \<open>The options of \<open>example_module\<close>, evaluated.\<close>

theorem securityClassificationDropdownOptions_shape_witness:
  "securityClassificationDropdownOptions example_module =
     Some [\<lparr>val = [], label = ''...''\<rparr>,
           \<lparr>val = ''confidential'', label = ''Confidential''\<rparr>,
           \<lparr>val = ''limitedDistribution'', label = ''Limited Distribution''\<rparr>,
           \<lparr>val = ''public'', label = ''Public''\<rparr>]
   \<and> (\<exists>m opts.
           defaultFieldDataTypeClassification example_module = Some m
         \<and> securityClassificationDropdownOptions example_module = Some opts
         \<and> length opts = card (set (Object_values m)) + 1
         \<and> val (hd opts) = []
         \<and> (\<forall>opt\<in>set (tl opts). val opt \<noteq> [])
         \<and> set (map val (tl opts)) = set (Object_values m)
         \<and> distinct (map val (tl opts))
         \<and> sorted (map val (tl opts)))"
proof -
  have h1: "\<forall>t\<in>set (genericLogicalTypes example_module).
             nonIdFieldLogicalTypes example_module t \<noteq> None"
    by (simp add: example_module_def)
  have h2: "LimitedDistribution example_module \<noteq> []"
    by (simp add: example_module_def)
  have h3: "\<forall>t e. nonIdFieldLogicalTypes example_module t = Some e \<longrightarrow> classification e \<noteq> []"
    by (auto simp add: example_module_def split: if_splits)
  have v: "securityClassificationDropdownOptions example_module =
     Some [\<lparr>val = [], label = ''...''\<rparr>,
           \<lparr>val = ''confidential'', label = ''Confidential''\<rparr>,
           \<lparr>val = ''limitedDistribution'', label = ''Limited Distribution''\<rparr>,
           \<lparr>val = ''public'', label = ''Public''\<rparr>]"
    by code_simp
  from securityClassificationDropdownOptions_shape [OF h1 h2 h3] v show ?thesis by blast
qed


section \<open>Properties of the identifier-type predicates\<close>

text \<open>
  Claim C5. For every identifier type, \<open>getDefaultLogicalType\<close> returns the label
  \<^verbatim>\<open>URN\<close> when \<open>isMixedId\<close> holds, that is when the identifier type equals the generic
  category constant, and no value otherwise. With the literal category constants,
  \<^verbatim>\<open>generic\<close> gives \<^verbatim>\<open>URN\<close> and \<^verbatim>\<open>urn\<close> gives no value.
\<close>

theorem getDefaultLogicalType_spec:
  "getDefaultLogicalType F identifierType =
     (if isMixedId F identifierType then Some ''URN'' else None)
   \<and> (isMixedId F identifierType \<longleftrightarrow> identifierType = generic_value F)
   \<and> getDefaultLogicalType fieldIdentifierTypes_literal ''generic'' = Some ''URN''
   \<and> getDefaultLogicalType fieldIdentifierTypes_literal ''urn'' = None"
  by (simp add: getDefaultLogicalType_def isMixedId_def fieldIdentifierTypes_literal_def)

text \<open>
  Claim C6. For every identifier type, \<open>hasPredefinedFieldFormat\<close> holds exactly when
  \<open>isMixedId\<close> or \<open>isCustomId\<close> holds. With the literal category constants:
  \<^verbatim>\<open>generic\<close> is a mixed id, \<^verbatim>\<open>custom\<close> is not a mixed id but a custom id and has a
  predefined field format, \<^verbatim>\<open>urn\<close> has none.
\<close>

theorem hasPredefinedFieldFormat_spec:
  "(hasPredefinedFieldFormat F identifierType \<longleftrightarrow>
      isMixedId F identifierType \<or> isCustomId F identifierType)
   \<and> isMixedId fieldIdentifierTypes_literal ''generic''
   \<and> \<not> isMixedId fieldIdentifierTypes_literal ''custom''
   \<and> isCustomId fieldIdentifierTypes_literal ''custom''
   \<and> hasPredefinedFieldFormat fieldIdentifierTypes_literal ''custom''
   \<and> \<not> hasPredefinedFieldFormat fieldIdentifierTypes_literal ''urn''"
  by (simp add: hasPredefinedFieldFormat_def isMixedId_def isCustomId_def
      fieldIdentifierTypes_literal_def)


section \<open>Properties of the labels of logical types\<close>

lemma replace_underscore_eq:
  "replace_global (match_class (\<lambda>c. c = CHR ''_'')) (\<lambda>_. '' '') s = underscores_to_spaces s"
  by (induction s) (simp_all add: match_class_def underscores_to_spaces_def)

lemma takeWhile_block:
  "\<forall>x\<in>set u. P x \<Longrightarrow> (case t of [] \<Rightarrow> True | c # _ \<Rightarrow> \<not> P c) \<Longrightarrow> takeWhile P (u @ t) = u"
  by (induction u) (auto split: list.splits)

lemma replace_runs_skip:
  "\<forall>x\<in>set v. \<not> P x \<Longrightarrow>
   replace_global (match_class_at_least 3 P) f (v @ t) =
     v @ replace_global (match_class_at_least 3 P) f t"
  by (induction v) (simp_all add: match_class_at_least_def)

lemma replace_runs_short:
  "\<forall>x\<in>set u. P x \<Longrightarrow> (case t of [] \<Rightarrow> True | c # _ \<Rightarrow> \<not> P c) \<Longrightarrow> length u < 3 \<Longrightarrow>
   replace_global (match_class_at_least 3 P) f (u @ t) =
     u @ replace_global (match_class_at_least 3 P) f t"
proof (induction u)
  case Nil
  then show ?case by simp
next
  case (Cons c u)
  have "takeWhile P ((c # u) @ t) = c # u"
    using Cons.prems(1,2) by (rule takeWhile_block)
  then have "match_class_at_least 3 P (c # u @ t) = None"
    using Cons.prems(3) by (simp add: match_class_at_least_def)
  moreover have "replace_global (match_class_at_least 3 P) f (u @ t) =
     u @ replace_global (match_class_at_least 3 P) f t"
    using Cons.prems by (intro Cons.IH) simp_all
  ultimately show ?case by simp
qed

lemma replace_runs_long:
  assumes "\<forall>x\<in>set u. P x" and "case t of [] \<Rightarrow> True | c # _ \<Rightarrow> \<not> P c" and "3 \<le> length u"
  shows "replace_global (match_class_at_least 3 P) f (u @ t) =
           f u @ replace_global (match_class_at_least 3 P) f t"
proof (cases u)
  case Nil
  with assms(3) show ?thesis by simp
next
  case (Cons c u')
  have "takeWhile P (u @ t) = u"
    using assms(1,2) by (rule takeWhile_block)
  then have "match_class_at_least 3 P (c # u' @ t) = Some (Suc (length u'))"
    using assms(3) Cons by (simp add: match_class_at_least_def)
  then show ?thesis
    using Cons by simp
qed

lemma dropWhile_head:
  "case dropWhile Q cs of [] \<Rightarrow> True | c # _ \<Rightarrow> \<not> Q c"
  by (simp add: dropWhile_eq_Cons_conv split: list.split)

lemma replace_runs_eq:
  "replace_global (match_class_at_least 3 upper_AZ) f s =
     concat (map (\<lambda>r. if 3 \<le> length r \<and> list_all upper_AZ r then f r else r)
                 (runs upper_AZ s))"
proof (induction upper_AZ s rule: runs.induct)
  case 1
  then show ?case by (simp add: match_class_at_least_def)
next
  case (2 c cs)
  let ?Q = "\<lambda>x. upper_AZ x = upper_AZ c"
  let ?u = "c # takeWhile ?Q cs"
  let ?t = "dropWhile ?Q cs"
  let ?g = "\<lambda>r. if 3 \<le> length r \<and> list_all upper_AZ r then f r else r"
  let ?R = "replace_global (match_class_at_least 3 upper_AZ) f"
  have split: "?R (c # cs) = ?R (?u @ ?t)"
    by (simp only: append_Cons takeWhile_dropWhile_id)
  have rhs: "concat (map ?g (runs upper_AZ (c # cs))) = ?g ?u @ ?R ?t"
    by (simp only: runs.simps list.map concat.simps "2")
  have same: "\<forall>x\<in>set ?u. upper_AZ x = upper_AZ c"
    by (auto dest: set_takeWhileD)
  have next_differs: "case ?t of [] \<Rightarrow> True | d # _ \<Rightarrow> upper_AZ d \<noteq> upper_AZ c"
    using dropWhile_head [of ?Q cs] by (auto split: list.splits)
  have lhs: "?R (?u @ ?t) = ?g ?u @ ?R ?t"
  proof (cases "upper_AZ c")
    case True
    with same have all: "\<forall>x\<in>set ?u. upper_AZ x" by simp
    have stop: "case ?t of [] \<Rightarrow> True | d # _ \<Rightarrow> \<not> upper_AZ d"
    proof (cases ?t)
      case Nil
      then show ?thesis by (simp only: list.case)
    next
      case (Cons d ds)
      with next_differs have "upper_AZ d \<noteq> upper_AZ c" by simp
      with True have "\<not> upper_AZ d" by blast
      with Cons show ?thesis by simp
    qed
    have la: "list_all upper_AZ ?u" using all by (simp add: list_all_iff)
    show ?thesis
    proof (cases "3 \<le> length ?u")
      case True
      with la have g: "?g ?u = f ?u" by (simp only: if_True simp_thms)
      show ?thesis
        unfolding g by (rule replace_runs_long [OF all stop True])
    next
      case False
      then have g: "?g ?u = ?u" by (simp only: if_False simp_thms)
      from False have "length ?u < 3" by simp
      from replace_runs_short [OF all stop this] show ?thesis
        unfolding g .
    qed
  next
    case False
    with same have none: "\<forall>x\<in>set ?u. \<not> upper_AZ x" by simp
    have "\<not> list_all upper_AZ ?u" using False by simp
    then have g: "?g ?u = ?u" by (simp only: if_False simp_thms)
    show ?thesis
      unfolding g by (rule replace_runs_skip [OF none])
  qed
  show ?case
    by (simp only: rhs split lhs)
qed

lemma id_label_eq: "id_label v = title_case_long_runs (underscores_to_spaces v)"
  unfolding id_label_def title_case_long_runs_def replace_underscore_eq replace_runs_eq ..

lemma map_throwing_total:
  "\<forall>x\<in>set xs. f x = Some (g x) \<Longrightarrow> map_throwing f xs = Some (map g xs)"
  by (induction xs) simp_all

text \<open>
  Claim C8. \<open>logicalTypeValueLabel\<close> returns one pair of value and label per entry of the
  enumeration of its category, in order. For the generic category (when the registry
  has an entry for every generic logical type) the label is the \<open>displayAs\<close> name of the
  registry entry. For the identifier category the label is the name with underscores
  replaced by spaces and every run of three or more consecutive uppercase letters
  replaced by its lower-cased form with the first letter capitalized.
\<close>

theorem logicalTypeValueLabel_labels:
  "((\<forall>t\<in>set (genericLogicalTypes M). nonIdFieldLogicalTypes M t \<noteq> None) \<longrightarrow>
      logicalTypeValueLabel M K_generic =
        Some (map (\<lambda>v. \<lparr>val = v, label = displayAs (the (nonIdFieldLogicalTypes M v))\<rparr>)
                  (genericLogicalTypes M)))
   \<and> logicalTypeValueLabel M K_id =
        Some (map (\<lambda>v. \<lparr>val = v, label = title_case_long_runs (underscores_to_spaces v)\<rparr>)
                  (idLogicalTypes M))"
proof (intro conjI impI)
  assume total: "\<forall>t\<in>set (genericLogicalTypes M). nonIdFieldLogicalTypes M t \<noteq> None"
  have "map_throwing
          (\<lambda>v. case nonIdFieldLogicalTypes M v of
                 None \<Rightarrow> None
               | Some entry \<Rightarrow> Some \<lparr>val = v, label = displayAs entry\<rparr>)
          (genericLogicalTypes M) =
        Some (map (\<lambda>v. \<lparr>val = v, label = displayAs (the (nonIdFieldLogicalTypes M v))\<rparr>)
                  (genericLogicalTypes M))"
    using total by (intro map_throwing_total) auto
  then show "logicalTypeValueLabel M K_generic =
        Some (map (\<lambda>v. \<lparr>val = v, label = displayAs (the (nonIdFieldLogicalTypes M v))\<rparr>)
                  (genericLogicalTypes M))"
    by (simp add: logicalTypeValueLabel_def)
next
  have "map_throwing (\<lambda>v. Some \<lparr>val = v, label = id_label v\<rparr>) (idLogicalTypes M) =
        Some (map (\<lambda>v. \<lparr>val = v, label = title_case_long_runs (underscores_to_spaces v)\<rparr>)
                  (idLogicalTypes M))"
    by (intro map_throwing_total) (simp add: id_label_eq)
  then show "logicalTypeValueLabel M K_id =
        Some (map (\<lambda>v. \<lparr>val = v, label = title_case_long_runs (underscores_to_spaces v)\<rparr>)
                  (idLogicalTypes M))"
    by (simp add: logicalTypeValueLabel_def)
qed

text \<open>The labels of \<open>example_module\<close>, evaluated.\<close>

theorem logicalTypeValueLabel_labels_witness:
  "logicalTypeValueLabel example_module K_generic =
     Some [\<lparr>val = ''EMAIL'', label = ''E-mail''\<rparr>,
           \<lparr>val = ''NAME'', label = ''Name''\<rparr>,
           \<lparr>val = ''AGE'', label = ''Age''\<rparr>]
   \<and> logicalTypeValueLabel example_module K_id =
     Some [\<lparr>val = ''ID'', label = ''ID''\<rparr>,
           \<lparr>val = ''URN'', label = ''Urn''\<rparr>,
           \<lparr>val = ''REVERSED_URN'', label = ''Reversed Urn''\<rparr>,
           \<lparr>val = ''COMPOSITE_URN'', label = ''Composite Urn''\<rparr>]"
proof -
  have h: "\<forall>t\<in>set (genericLogicalTypes example_module).
             nonIdFieldLogicalTypes example_module t \<noteq> None"
    by (simp add: example_module_def)
  have r: "map (\<lambda>v. title_case_long_runs (underscores_to_spaces v)) (idLogicalTypes example_module) =
     [''ID'', ''Urn'', ''Reversed Urn'', ''Composite Urn'']"
    by code_simp
  from logicalTypeValueLabel_labels [of example_module] h show ?thesis
    using r by (simp add: example_module_def)
qed


section \<open>Properties of the schema descriptor\<close>

text \<open>
  Claim C9. The two fields of \<open>SchemaDefinition\<close> are independently optional: for every
  choice of the two fields there is a record with exactly these fields, so each of the
  four combinations of presence and absence is a value of the type. A raw schema that is
  present is exactly one of the eight variants of the union.
\<close>

theorem SchemaDefinition_fields_independent:
  "(\<forall>r n. \<exists>sd::SchemaDefinition. rawSchema sd = r \<and> normalizedSchema sd = n)
   \<and> (\<exists>sd::SchemaDefinition. rawSchema sd = None \<and> normalizedSchema sd = None)
   \<and> (\<exists>sd::SchemaDefinition. rawSchema sd \<noteq> None \<and> normalizedSchema sd = None)
   \<and> (\<exists>sd::SchemaDefinition. rawSchema sd = None \<and> normalizedSchema sd \<noteq> None)
   \<and> (\<exists>sd::SchemaDefinition. rawSchema sd \<noteq> None \<and> normalizedSchema sd \<noteq> None)
   \<and> (\<forall>u. length (filter (\<lambda>is_variant. is_variant u) variants) = 1)"
proof (intro conjI allI)
  fix r n
  show "\<exists>sd::SchemaDefinition. rawSchema sd = r \<and> normalizedSchema sd = n"
    by (rule exI [of _ "\<lparr>rawSchema = r, normalizedSchema = n\<rparr>"]) simp
  show "\<exists>sd::SchemaDefinition. rawSchema sd = None \<and> normalizedSchema sd = None"
    by (rule exI [of _ "\<lparr>rawSchema = None, normalizedSchema = None\<rparr>"]) simp
  show "\<exists>sd::SchemaDefinition. rawSchema sd \<noteq> None \<and> normalizedSchema sd = None"
    by (rule exI [of _ "\<lparr>rawSchema = Some (DDL undefined), normalizedSchema = None\<rparr>"]) simp
  show "\<exists>sd::SchemaDefinition. rawSchema sd = None \<and> normalizedSchema sd \<noteq> None"
    by (rule exI [of _ "\<lparr>rawSchema = None, normalizedSchema = Some undefined\<rparr>"]) simp
  show "\<exists>sd::SchemaDefinition. rawSchema sd \<noteq> None \<and> normalizedSchema sd \<noteq> None"
    by (rule exI [of _ "\<lparr>rawSchema = Some (DDL undefined), normalizedSchema = Some undefined\<rparr>"]) simp
next
  fix u
  show "length (filter (\<lambda>is_variant. is_variant u) variants) = 1"
    by (cases u) (simp_all add: variants_def)
qed

end
